theory Spec2Isabelle
  imports Complex_Main
begin

section \<open>Exceptions\<close>

text \<open>
  The exceptions the program can meet. All of them are subclasses of Python's
  \<open>Exception\<close>, so an \<open>except Exception\<close> clause catches each of them.
  \<open>BackendError\<close> stands for whatever the execution service raises.
\<close>

datatype exn = ZeroDivisionError | ValueError | OverflowError | IndexError | BackendError

section \<open>LargeNumberHandler\<close>

text \<open>
  The \<open>while exponent > 0\<close> loop of \<open>modular_exponentiation\<close>, on Python's unbounded
  integers. \<open>%\<close> and \<open>//\<close> are floor division, as \<open>mod\<close> and \<open>div\<close> on \<open>int\<close> are.
\<close>

function modexp_loop :: "int \<Rightarrow> int \<Rightarrow> int \<Rightarrow> int \<Rightarrow> int" where
  "modexp_loop result base exponent modulus =
     (if exponent > 0
      then modexp_loop (if exponent mod 2 = 1 then (result * base) mod modulus else result)
                       ((base * base) mod modulus) (exponent div 2) modulus
      else result)"
  by pat_completeness auto
termination
  by (relation "measure (\<lambda>(result, base, exponent, modulus). nat exponent)") auto

declare modexp_loop.simps [simp del]

text \<open>
  \<open>base = base % modulus\<close> raises \<open>ZeroDivisionError\<close> when the modulus is zero, before
  the loop is entered.
\<close>

definition modular_exponentiation :: "int \<Rightarrow> int \<Rightarrow> int \<Rightarrow> exn + int" where
  "modular_exponentiation base exponent modulus =
     (if modulus = 0 then Inl ZeroDivisionError
      else Inr (modexp_loop 1 (base mod modulus) exponent modulus))"

section \<open>Python floats\<close>

text \<open>
  A finite Python \<open>float\<close> (IEEE 754 binary64) is modelled by the rational number it
  denotes. Every float operation of the program is correctly rounded, so it is the exact
  operation on rationals followed by \<open>round_double\<close>: rounding to the nearest number
  with a 53-bit significand (a multiple of \<open>2\<^sup>-\<^sup>1\<^sup>0\<^sup>7\<^sup>4\<close> in the subnormal
  range), ties to the even significand.
\<close>

definition pow2 :: "int \<Rightarrow> rat" where
  "pow2 e = (if 0 \<le> e then 2 ^ nat e else 1 / 2 ^ nat (- e))"

function bit_length :: "int \<Rightarrow> int" where
  "bit_length p = (if p \<le> 0 then 0 else 1 + bit_length (p div 2))"
  by pat_completeness auto
termination
  by (relation "measure nat") auto

declare bit_length.simps [simp del]

text \<open>For \<open>x > 0\<close>, the exponent \<open>e\<close> with \<open>2\<^sup>e \<le> x < 2\<^sup>e\<^sup>+\<^sup>1\<close>.\<close>

definition floor_log2 :: "rat \<Rightarrow> int" where
  "floor_log2 x =
     (let e0 = bit_length (fst (quotient_of x)) - bit_length (snd (quotient_of x))
      in if pow2 e0 \<le> x then e0 else e0 - 1)"

definition round_half_even :: "rat \<Rightarrow> int" where
  "round_half_even s =
     (let f = \<lfloor>s\<rfloor>; d = s - of_int f
      in if d < 1 / 2 then f else if 1 / 2 < d then f + 1
         else if even f then f else f + 1)"

definition round_double :: "rat \<Rightarrow> rat" where
  "round_double x =
     (if x = 0 then 0
      else let q = max (floor_log2 \<bar>x\<bar> - 52) (- 1074)
           in of_int (round_half_even (x / pow2 q)) * pow2 q)"

text \<open>
  \<open>float(i)\<close>, the implicit conversion of an \<open>int\<close> operand: \<open>OverflowError\<close> when the
  rounded value leaves the binary64 range.
\<close>

definition float_of_int :: "int \<Rightarrow> exn + rat" where
  "float_of_int i =
     (let r = round_double (of_int i)
      in if pow2 1024 \<le> \<bar>r\<bar> then Inl OverflowError else Inr r)"

text \<open>
  \<open>x * y\<close> on floats. An overflowing product would be an infinity, which the model has
  no value for; the program only multiplies by the literal \<open>0.02\<close>, which cannot
  overflow.
\<close>

definition float_mul :: "rat \<Rightarrow> rat \<Rightarrow> rat" where
  "float_mul x y = round_double (x * y)"

text \<open>\<open>a / b\<close> on two \<open>int\<close>s: the correctly rounded quotient.\<close>

definition int_truediv :: "int \<Rightarrow> int \<Rightarrow> exn + rat" where
  "int_truediv a b =
     (if b = 0 then Inl ZeroDivisionError
      else let r = round_double (of_int a / of_int b)
           in if pow2 1024 \<le> \<bar>r\<bar> then Inl OverflowError else Inr r)"

section \<open>fractions.Fraction\<close>

text \<open>
  A \<open>Fraction\<close> is a rational in lowest terms with a positive denominator, as
  \<open>quotient_of\<close> gives it. \<open>Fraction(phase)\<close> of a float is exact, so it is the
  identity on the model of floats.

  The \<open>while True\<close> loop of \<open>Fraction.limit_denominator\<close>; the result is the
  state \<open>(p0, q0, p1, q1)\<close> at the \<open>break\<close>. \<open>n // d\<close> raises when \<open>d\<close> is zero.
\<close>

function limit_loop ::
  "int \<Rightarrow> int \<Rightarrow> int \<Rightarrow> int \<Rightarrow> int \<Rightarrow> int \<Rightarrow> int \<Rightarrow> exn + (int \<times> int \<times> int \<times> int)" where
  "limit_loop max_denominator p0 q0 p1 q1 n d =
     (if d = 0 then Inl ZeroDivisionError
      else let a = n div d; q2 = q0 + a * q1
           in if q2 > max_denominator then Inr (p0, q0, p1, q1)
              else limit_loop max_denominator p1 q1 (p0 + a * p1) q2 d (n - a * d))"
  by pat_completeness auto
termination
proof (relation "measure (\<lambda>(max_denominator, p0, q0, p1, q1, n, d). nat \<bar>d\<bar>)")
  show "wf (measure (\<lambda>(max_denominator, p0, q0, p1, q1, n, d). nat \<bar>d\<bar>))"
    by simp
next
  fix max_denominator p0 q0 p1 q1 n d a :: int and q2 :: int
  assume "d \<noteq> 0" and "a = n div d"
  then have "n - a * d = n mod d"
    by (simp add: minus_div_mult_eq_mod)
  moreover have "\<bar>n mod d\<bar> < \<bar>d\<bar>"
    using \<open>d \<noteq> 0\<close> by (rule abs_mod_less)
  ultimately show "((max_denominator, p1, q1, p0 + a * p1, q2, d, n - a * d),
                    (max_denominator, p0, q0, p1, q1, n, d))
                   \<in> measure (\<lambda>(max_denominator, p0, q0, p1, q1, n, d). nat \<bar>d\<bar>)"
    by simp
qed

declare limit_loop.simps [simp del]

definition limit_denominator :: "rat \<Rightarrow> int \<Rightarrow> exn + rat" where
  "limit_denominator self max_denominator =
     (if max_denominator < 1 then Inl ValueError
      else if snd (quotient_of self) \<le> max_denominator then Inr self
      else case limit_loop max_denominator 0 1 1 0
                  (fst (quotient_of self)) (snd (quotient_of self)) of
             Inl e \<Rightarrow> Inl e
           | Inr (p0, q0, p1, q1) \<Rightarrow>
               if q1 = 0 then Inl ZeroDivisionError
               else let k = (max_denominator - q0) div q1
                    in if q0 + k * q1 = 0 then Inl ZeroDivisionError
                       else let bound1 = Fract (p0 + k * p1) (q0 + k * q1);
                                bound2 = Fract p1 q1
                            in if \<bar>bound2 - self\<bar> \<le> \<bar>bound1 - self\<bar>
                               then Inr bound2 else Inr bound1)"

definition denominator :: "rat \<Rightarrow> int" where
  "denominator f = snd (quotient_of f)"


section \<open>Period extraction\<close>

text \<open>
  A measured bitstring (a key of the histogram that \<open>get_counts()\<close> returns) is a
  string of the characters 0 and 1, most significant first: a list of bits. The
  histogram is a Python \<open>dict\<close>, which is iterated in insertion order: an association
  list with distinct keys.
\<close>

type_synonym bitstring = "bool list"

type_synonym counts = "(bitstring \<times> int) list"

text \<open>\<open>int(output, 2)\<close>: the empty string is not a numeral.\<close>

definition int_base2 :: "bitstring \<Rightarrow> exn + int" where
  "int_base2 output =
     (if output = [] then Inl ValueError
      else Inr (foldl (\<lambda>v b. 2 * v + (if b then 1 else 0)) 0 output))"

text \<open>
  A list comprehension whose element expression may raise: the first exception ends
  the comprehension.
\<close>

fun comprehension :: "('a \<Rightarrow> exn + 'b) \<Rightarrow> 'a list \<Rightarrow> exn + 'b list" where
  "comprehension f [] = Inr []"
| "comprehension f (x # xs) =
     (case f x of Inl e \<Rightarrow> Inl e
      | Inr y \<Rightarrow> (case comprehension f xs of Inl e \<Rightarrow> Inl e | Inr ys \<Rightarrow> Inr (y # ys)))"

text \<open>\<open>threshold = 0.02 * total_shots\<close>; the literal is the double nearest to 1/50.\<close>

definition threshold_of :: "int \<Rightarrow> exn + rat" where
  "threshold_of total_shots =
     (case float_of_int total_shots of Inl e \<Rightarrow> Inl e
      | Inr t \<Rightarrow> Inr (float_mul (round_double (2 / 100)) t))"

text \<open>\<open>int(output, 2) / (2 ** len(output))\<close>\<close>

definition phase_of :: "bitstring \<Rightarrow> exn + rat" where
  "phase_of output =
     (case int_base2 output of Inl e \<Rightarrow> Inl e
      | Inr v \<Rightarrow> int_truediv v (2 ^ length output))"

text \<open>\<open>min(..., default=None)\<close>\<close>

definition min_default :: "int list \<Rightarrow> int option" where
  "min_default rs = (case rs of [] \<Rightarrow> None | r # rs' \<Rightarrow> Some (fold min rs' r))"

text \<open>
  The first three assignments of \<open>optimized_period_finding\<close>: the list \<open>candidates\<close>.
  Comparing the \<open>int\<close> count with the float threshold is exact in Python.
\<close>

definition candidates_of :: "counts \<Rightarrow> int \<Rightarrow> exn + int list" where
  "candidates_of counts N =
     (let total_shots = sum_list (map snd counts)
      in case threshold_of total_shots of Inl e \<Rightarrow> Inl e
         | Inr threshold \<Rightarrow>
             (case comprehension (\<lambda>(output, count). phase_of output)
                     [(output, count) \<leftarrow> counts. threshold \<le> of_int count] of
                Inl e \<Rightarrow> Inl e
              | Inr phases \<Rightarrow>
                  comprehension
                    (\<lambda>phase. case limit_denominator phase N of Inl e \<Rightarrow> Inl e
                              | Inr f \<Rightarrow> Inr (denominator f))
                    phases))"

definition optimized_period_finding :: "counts \<Rightarrow> int \<Rightarrow> exn + int option" where
  "optimized_period_finding counts N =
     (case candidates_of counts N of Inl e \<Rightarrow> Inl e
      | Inr candidates \<Rightarrow>
          Inr (min_default [r \<leftarrow> candidates. r mod 2 = 0 \<and> 1 < r \<and> r < N]))"

section \<open>Configuration\<close>

definition SHOTS :: nat where "SHOTS = 4096"

definition MAX_QUBITS :: nat where "MAX_QUBITS = 128"

definition MAX_PARALLEL_JOBS :: nat where "MAX_PARALLEL_JOBS = 8"

section \<open>LargeNumberShorCircuit\<close>

text \<open>
  The circuit object of the external library is modelled by what the program puts into
  it: the widths of the four registers it is constructed from and the gates appended,
  in order. The library's constructors and gate methods are taken to record their
  arguments; indexing a register (\<open>target[j]\<close>) raises \<open>IndexError\<close> out of range.
\<close>

datatype qubit = Control nat | Target nat | Ancilla nat

datatype gate = H qubit | CX qubit qubit | CCX qubit qubit qubit | Measure

record circuit =
  control :: nat
  target :: nat
  ancilla :: nat
  classical :: nat
  gates :: "gate list"

definition getitem :: "nat \<Rightarrow> (nat \<Rightarrow> qubit) \<Rightarrow> nat \<Rightarrow> exn + qubit" where
  "getitem width reg j = (if j < width then Inr (reg j) else Inl IndexError)"

text \<open>
  \<open>bin(x)\<close>: the binary numeral with its \<open>0b\<close> prefix, and a sign when negative;
  \<open>bin_digits\<close> gives the digits of a number that is not negative.
\<close>

function bin_digits :: "int \<Rightarrow> string" where
  "bin_digits m =
     (if m < 2 then [if m \<le> 0 then CHR ''0'' else CHR ''1'']
      else bin_digits (m div 2) @ [if m mod 2 = 0 then CHR ''0'' else CHR ''1''])"
  by pat_completeness auto
termination
  by (relation "measure nat") auto

declare bin_digits.simps [simp del]

definition bin :: "int \<Rightarrow> string" where
  "bin x = (if x < 0 then ''-0b'' @ bin_digits (- x) else ''0b'' @ bin_digits x)"

text \<open>\<open>s.zfill(width)\<close>: zeros are inserted after a leading sign.\<close>

definition zfill :: "string \<Rightarrow> nat \<Rightarrow> string" where
  "zfill s width =
     (if width \<le> length s then s
      else case s of
             c # cs \<Rightarrow>
               if c = CHR ''+'' \<or> c = CHR ''-''
               then c # replicate (width - length s) CHR ''0'' @ cs
               else replicate (width - length s) CHR ''0'' @ s
           | [] \<Rightarrow> replicate width CHR ''0'')"

text \<open>
  The object that \<open>__init__\<close> sets up. The field \<open>total_qubits\<close> is assigned there and
  read nowhere else in the program.
\<close>

record generator =
  modulus_N :: int
  bits_n :: nat
  total_qubits :: nat

definition LargeNumberShorCircuit :: "int \<Rightarrow> generator" where
  "LargeNumberShorCircuit N =
     \<lparr>modulus_N = N,
      bits_n = length (bin N) - 2,
      total_qubits = min MAX_QUBITS (3 * (length (bin N) - 2) + 2)\<rparr>"

text \<open>
  The body of the second loop of \<open>_build_circuit\<close>, for the control qubit of index
  \<open>i\<close>: the gates it appends.
\<close>

definition oracle_gates :: "generator \<Rightarrow> circuit \<Rightarrow> int \<Rightarrow> nat \<Rightarrow> exn + gate list" where
  "oracle_gates self c a i =
     (let ctrl = Control i; power = (2::int) ^ i
      in case modular_exponentiation a power (modulus_N self) of Inl e \<Rightarrow> Inl e
         | Inr result \<Rightarrow>
             (let binary = zfill (drop 2 (bin result)) (target c)
              in case getitem (ancilla c) Ancilla 0 of Inl e \<Rightarrow> Inl e
                 | Inr anc \<Rightarrow>
                     (case comprehension
                             (\<lambda>(j, bit). case getitem (target c) Target j of Inl e \<Rightarrow> Inl e
                                          | Inr t \<Rightarrow> Inr (CCX anc ctrl t))
                             [(j, bit) \<leftarrow> enumerate 0 (rev binary). bit = CHR ''1''] of
                        Inl e \<Rightarrow> Inl e
                      | Inr ccxs \<Rightarrow> Inr ([CX ctrl anc] @ ccxs @ [CX ctrl anc]))))"

definition build_circuit :: "generator \<Rightarrow> circuit \<Rightarrow> int \<Rightarrow> exn + circuit" where
  "build_circuit self c a =
     (let hs = map (\<lambda>i. H (Control i)) [0..<control c]
      in case comprehension (oracle_gates self c a) [0..<control c] of Inl e \<Rightarrow> Inl e
         | Inr blocks \<Rightarrow> Inr (c\<lparr>gates := gates c @ hs @ concat blocks @ [Measure]\<rparr>))"

definition create_quantum_circuits :: "generator \<Rightarrow> int \<Rightarrow> exn + circuit" where
  "create_quantum_circuits self a =
     build_circuit self
       \<lparr>control = 2 * bits_n self, target = bits_n self, ancilla = 2,
        classical = 2 * bits_n self, gates = []\<rparr> a"


section \<open>OptimizedQuantumRings\<close>

text \<open>
  The execution service is outside the program. Its reply to one submission
  (\<open>backend.run\<close>, \<open>job_monitor\<close>, \<open>get_counts\<close>) is a histogram or an exception;
  \<open>backend circuit attempt\<close> is the reply to the submission number \<open>attempt\<close> of a
  circuit.

  \<open>execute_with_retry\<close> is the \<open>for attempt in range(max_retries)\<close> loop. Besides the
  histogram returned, the model records the number of submissions made and the
  arguments of the \<open>time.sleep\<close> calls, in order.
\<close>

record job_log =
  histogram :: counts
  submissions :: nat
  sleeps :: "nat list"

fun retry_loop :: "(nat \<Rightarrow> exn + counts) \<Rightarrow> nat list \<Rightarrow> job_log" where
  "retry_loop run [] = \<lparr>histogram = [], submissions = 0, sleeps = []\<rparr>"
| "retry_loop run (attempt # rest) =
     (case run attempt of
        Inr result \<Rightarrow> \<lparr>histogram = result, submissions = 1, sleeps = []\<rparr>
      | Inl e \<Rightarrow>
          (let later = retry_loop run rest
           in \<lparr>histogram = histogram later, submissions = Suc (submissions later),
               sleeps = 2 ^ attempt # sleeps later\<rparr>))"

definition execute_with_retry :: "(circuit \<Rightarrow> nat \<Rightarrow> exn + counts) \<Rightarrow> circuit \<Rightarrow> nat \<Rightarrow> job_log" where
  "execute_with_retry backend c max_retries = retry_loop (backend c) [0..<max_retries]"

text \<open>
  \<open>execute_circuits\<close> runs \<open>execute_with_retry\<close> (with the default \<open>max_retries=3\<close>) on
  every circuit in a thread pool and collects the results in the order of the
  circuits. The service may answer two jobs of a batch differently, so its replies
  are indexed by the position of the job in the batch as well.
\<close>

definition execute_circuits ::
  "(nat \<Rightarrow> circuit \<Rightarrow> nat \<Rightarrow> exn + counts) \<Rightarrow> circuit list \<Rightarrow> job_log list" where
  "execute_circuits backend circuits =
     map (\<lambda>(j, c). execute_with_retry (backend j) c 3) (enumerate 0 circuits)"

section \<open>The orchestrator\<close>

text \<open>
  What the program takes from outside during a run: the random numbers drawn and the
  replies of the execution service, both indexed by the round of the \<open>while True\<close>
  loop and the position in the batch.
\<close>

record world =
  entropy :: "nat \<Rightarrow> nat \<Rightarrow> nat"
  service :: "nat \<Rightarrow> nat \<Rightarrow> circuit \<Rightarrow> nat \<Rightarrow> exn + counts"

text \<open>
  \<open>np.random.randint(low, high)\<close>: a value of the half-open range, here picked by
  the raw random number \<open>r\<close>; \<open>ValueError\<close> when the range is empty.
\<close>

definition randint :: "int \<Rightarrow> int \<Rightarrow> nat \<Rightarrow> exn + int" where
  "randint low high r =
     (if high \<le> low then Inl ValueError else Inr (low + int r mod (high - low)))"

definition sample_bases :: "(nat \<Rightarrow> nat) \<Rightarrow> int \<Rightarrow> exn + int list" where
  "sample_bases draw N =
     comprehension (\<lambda>j. randint 2 (min N (2 ^ 32)) (draw j)) [0..<MAX_PARALLEL_JOBS]"

text \<open>The first \<open>for a in bases\<close> loop: the classical gcd check.\<close>

fun classical_check :: "int list \<Rightarrow> int \<Rightarrow> (int \<times> int) option" where
  "classical_check [] N = None"
| "classical_check (a # bases) N =
     (let factor = gcd a N
      in if 1 < factor \<and> factor < N then Some (factor, N div factor)
         else classical_check bases N)"

text \<open>\<open>for factor in (gcd(x-1, N), gcd(x+1, N))\<close>\<close>

fun try_factors :: "int list \<Rightarrow> int \<Rightarrow> (int \<times> int) option" where
  "try_factors [] N = None"
| "try_factors (factor # factors) N =
     (if 1 < factor \<and> factor < N then Some (factor, N div factor)
      else try_factors factors N)"

text \<open>
  The loop \<open>for a, counts in zip(bases, results)\<close>. \<open>period and period % 2 == 0\<close> is
  false for \<open>None\<close> and for 0.
\<close>

fun factor_test :: "(int \<times> counts) list \<Rightarrow> int \<Rightarrow> exn + (int \<times> int) option" where
  "factor_test [] N = Inr None"
| "factor_test ((a, counts) # rest) N =
     (if counts = [] then factor_test rest N
      else case optimized_period_finding counts N of Inl e \<Rightarrow> Inl e
           | Inr None \<Rightarrow> factor_test rest N
           | Inr (Some period) \<Rightarrow>
               if period \<noteq> 0 \<and> period mod 2 = 0
               then case modular_exponentiation a (period div 2) N of Inl e \<Rightarrow> Inl e
                    | Inr x \<Rightarrow>
                        (case try_factors [gcd (x - 1) N, gcd (x + 1) N] N of
                           Some found \<Rightarrow> Inr (Some found)
                         | None \<Rightarrow> factor_test rest N)
               else factor_test rest N)"

text \<open>
  One pass through the body of the \<open>try\<close>: its outcome (a returned pair, falling off
  the end, or an exception), the circuits that were built and the log of every job
  handed to the execution service.
\<close>

record round_report =
  outcome :: "exn + (int \<times> int) option"
  built :: "circuit list"
  jobs :: "job_log list"

definition trial_round :: "world \<Rightarrow> generator \<Rightarrow> int \<Rightarrow> nat \<Rightarrow> round_report" where
  "trial_round w circuit_generator N t =
     (case sample_bases (entropy w t) N of
        Inl e \<Rightarrow> \<lparr>outcome = Inl e, built = [], jobs = []\<rparr>
      | Inr bases \<Rightarrow>
          (case classical_check bases N of
             Some found \<Rightarrow> \<lparr>outcome = Inr (Some found), built = [], jobs = []\<rparr>
           | None \<Rightarrow>
               (case comprehension (create_quantum_circuits circuit_generator) bases of
                  Inl e \<Rightarrow>
                    \<lparr>outcome = Inl e,
                     built = map projr (takeWhile (\<lambda>r. \<not> isl r)
                               (map (create_quantum_circuits circuit_generator) bases)),
                     jobs = []\<rparr>
                | Inr circuits \<Rightarrow>
                    (let results = execute_circuits (service w t) circuits
                     in \<lparr>outcome = factor_test (zip bases (map histogram results)) N,
                         built = circuits, jobs = results\<rparr>))))"

text \<open>
  The \<open>while True\<close> loop, from round \<open>t\<close> on. \<open>except Exception: pass\<close> sends every
  exception of the body to the next round. The value \<open>None\<close> of the model is a run
  that never returns. The third component of the tuple the program returns, the
  elapsed wall-clock time, is left out.
\<close>

partial_function (option) shor_loop :: "world \<Rightarrow> generator \<Rightarrow> int \<Rightarrow> nat \<Rightarrow> (int \<times> int) option" where
  "shor_loop w circuit_generator N t =
     (case outcome (trial_round w circuit_generator N t) of
        Inr (Some found) \<Rightarrow> Some found
      | Inr None \<Rightarrow> shor_loop w circuit_generator N (Suc t)
      | Inl e \<Rightarrow> shor_loop w circuit_generator N (Suc t))"

definition run_shors_algorithm :: "world \<Rightarrow> int \<Rightarrow> (int \<times> int) option" where
  "run_shors_algorithm w N = shor_loop w (LargeNumberShorCircuit N) N 0"

declare shor_loop.simps [code]

section \<open>Example inputs\<close>

text \<open>A service that fails every submission, and a circuit to submit to it.\<close>

definition always_failing :: "circuit \<Rightarrow> nat \<Rightarrow> exn + counts" where
  "always_failing c attempt = Inl BackendError"

definition empty_circuit :: circuit where
  "empty_circuit = \<lparr>control = 0, target = 0, ancilla = 0, classical = 0, gates = []\<rparr>"

text \<open>
  A run on \<open>N = 15\<close> whose first random draw gives the base \<open>2 + 3 = 5\<close> and whose
  other draws give the base 2.
\<close>

definition w15 :: world where
  "w15 = \<lparr>entropy = (\<lambda>t j. if j = 0 then 3 else 0), service = (\<lambda>t j c k. Inl BackendError)\<rparr>"


text \<open>
  A run on \<open>N = 15\<close> in which every base drawn is 2 and the service answers every job
  with the empty histogram.
\<close>

definition w_dead :: world where
  "w_dead = \<lparr>entropy = (\<lambda>t j. 0), service = (\<lambda>t j c k. Inr [])\<rparr>"

section \<open>Modular exponentiation: correctness\<close>

lemma power_halve:
  assumes "0 < (e::int)"
  shows "(b::int) ^ nat e = (b * b) ^ nat (e div 2) * (if e mod 2 = 1 then b else 1)"
proof -
  have "int (nat e) = int (2 * nat (e div 2) + nat (e mod 2))"
    using assms by simp
  then have e: "nat e = 2 * nat (e div 2) + nat (e mod 2)"
    by (simp only: of_nat_eq_iff)
  have "b ^ nat e = (b ^ 2) ^ nat (e div 2) * b ^ nat (e mod 2)"
    by (subst e) (simp add: power_add power_mult)
  moreover have "b ^ nat (e mod 2) = (if e mod 2 = 1 then b else 1)"
  proof (cases "e mod 2 = 1")
    case True
    then show ?thesis by simp
  next
    case False
    then have "e mod 2 = 0" by presburger
    then show ?thesis by simp
  qed
  ultimately show ?thesis by (simp add: power2_eq_square)
qed

lemma mod_power_right: "(x * (y mod m) ^ k) mod m = (x * y ^ k) mod (m::int)"
  by (metis mod_mult_right_eq power_mod)

lemma modexp_loop_zero: "exponent \<le> 0 \<Longrightarrow> modexp_loop result base exponent modulus = result"
  by (subst modexp_loop.simps) simp

lemma modexp_loop_mod:
  "modexp_loop result base exponent modulus mod modulus
     = (result * base ^ nat exponent) mod modulus"
proof (induction result base exponent modulus rule: modexp_loop.induct)
  case (1 result base exponent modulus)
  show ?case
  proof (cases "exponent > 0")
    case False
    then show ?thesis by (simp add: modexp_loop_zero)
  next
    case True
    let ?r = "if exponent mod 2 = 1 then (result * base) mod modulus else result"
    let ?f = "if exponent mod 2 = 1 then base else (1::int)"
    let ?k = "nat (exponent div 2)"
    have "modexp_loop result base exponent modulus mod modulus
            = modexp_loop ?r ((base * base) mod modulus) (exponent div 2) modulus mod modulus"
      using True by (subst modexp_loop.simps) simp
    also have "\<dots> = (?r * ((base * base) mod modulus) ^ ?k) mod modulus"
      using "1.IH" [OF True] by simp
    also have "\<dots> = (?r * (base * base) ^ ?k) mod modulus"
      by (rule mod_power_right)
    also have "\<dots> = ((result * ?f) * (base * base) ^ ?k) mod modulus"
      by (simp add: mod_mult_left_eq)
    also have "(result * ?f) * (base * base) ^ ?k = result * base ^ nat exponent"
      using power_halve [OF True, of base] by simp
    finally show ?thesis .
  qed
qed

lemma modexp_loop_range:
  assumes "0 < modulus" "0 \<le> result" "result < modulus"
  shows "0 \<le> modexp_loop result base exponent modulus
         \<and> modexp_loop result base exponent modulus < modulus"
  using assms
proof (induction result base exponent modulus rule: modexp_loop.induct)
  case (1 result base exponent modulus)
  show ?case
  proof (cases "exponent > 0")
    case False
    then show ?thesis using "1.prems" by (simp add: modexp_loop_zero)
  next
    case True
    let ?r = "if exponent mod 2 = 1 then (result * base) mod modulus else result"
    have r: "0 \<le> ?r" "?r < modulus" using "1.prems" by auto
    have "modexp_loop result base exponent modulus
            = modexp_loop ?r ((base * base) mod modulus) (exponent div 2) modulus"
      using True by (subst modexp_loop.simps) simp
    then show ?thesis using "1.IH" [OF True "1.prems"(1) r] by simp
  qed
qed

lemma modexp_loop_eq:
  assumes "1 < modulus"
  shows "modexp_loop 1 base exponent modulus = base ^ nat exponent mod modulus"
proof -
  have "0 \<le> modexp_loop 1 base exponent modulus
        \<and> modexp_loop 1 base exponent modulus < modulus"
    using assms by (intro modexp_loop_range) auto
  then have "modexp_loop 1 base exponent modulus
               = modexp_loop 1 base exponent modulus mod modulus"
    by simp
  then show ?thesis by (simp add: modexp_loop_mod)
qed

lemma modular_exponentiation_eq:
  "1 < modulus \<Longrightarrow>
     modular_exponentiation base exponent modulus = Inr (base ^ nat exponent mod modulus)"
  by (simp add: modular_exponentiation_def modexp_loop_eq power_mod)

text \<open>
  Claim C4. For every modulus \<open>N \<ge> 4\<close>, base \<open>b \<ge> 2\<close> and exponent \<open>e \<ge> 0\<close>,
  \<open>modular_exponentiation b e N\<close> returns \<open>b\<^sup>e mod N\<close>, the power being the exact
  one on unbounded integers (so operands of any size are covered).
\<close>

theorem modular_exponentiation_correct:
  assumes "4 \<le> N" and "2 \<le> b" and "0 \<le> e"
  shows "modular_exponentiation b e N = Inr (b ^ nat e mod N)"
  using assms by (intro modular_exponentiation_eq) simp

theorem modular_exponentiation_correct_witness:
  "(4::int) \<le> 21 \<and> (2::int) \<le> 2 \<and> (0::int) \<le> 6
   \<and> modular_exponentiation 2 6 21 = Inr 1"
  using modular_exponentiation_correct [of 21 2 6] by simp

text \<open>
  Claim C10. For every base \<open>b\<close> and every modulus \<open>m \<ge> 1\<close>,
  \<open>modular_exponentiation b 0 m\<close> returns 1; in particular for \<open>m = 1\<close> the result
  is 1 and not \<open>b\<^sup>0 mod 1 = 0\<close>.
\<close>

theorem modular_exponentiation_exponent_zero:
  assumes "1 \<le> m"
  shows "modular_exponentiation b 0 m = Inr 1"
  using assms by (simp add: modular_exponentiation_def modexp_loop_zero)

theorem modular_exponentiation_exponent_zero_witness:
  "(1::int) \<le> 1 \<and> modular_exponentiation 7 0 1 = Inr 1 \<and> (7::int) ^ 0 mod 1 = 0"
  using modular_exponentiation_exponent_zero [of 1 7] by simp

section \<open>List comprehensions and minima\<close>




section \<open>Python floats: rounding stays near its argument\<close>


lemma pow2_powi: "pow2 e = 2 powi e"
  by (simp add: pow2_def power_int_def inverse_eq_divide power_one_over)












lemma pow2_add: "pow2 (a + b) = pow2 a * pow2 b"
  by (simp add: pow2_powi power_int_add)

lemma pow2_halve [code]:
  "pow2 e = (if e = 0 then 1
             else if 0 < e
             then (let h = pow2 (e div 2) in if e mod 2 = 0 then h * h else 2 * (h * h))
             else 1 / pow2 (- e))"
proof (cases "0 < e")
  case False
  then show ?thesis by (simp add: pow2_def)
next
  case True
  show ?thesis
  proof (cases "e mod 2 = 0")
    case even: True
    then have "e = e div 2 + e div 2" by presburger
    then have "pow2 e = pow2 (e div 2) * pow2 (e div 2)"
      using pow2_add [of "e div 2" "e div 2"] by simp
    then show ?thesis using True even by (simp add: Let_def)
  next
    case odd: False
    then have "e = 1 + (e div 2 + e div 2)" by presburger
    then have "pow2 e = pow2 1 * (pow2 (e div 2) * pow2 (e div 2))"
      using pow2_add [of 1 "e div 2 + e div 2"] pow2_add [of "e div 2" "e div 2"] by simp
    moreover have "pow2 1 = 2" by (simp add: pow2_def)
    ultimately show ?thesis using True odd by (simp add: Let_def)
  qed
qed

section \<open>Fraction.limit_denominator returns\<close>



section \<open>Period extraction: the minimum qualifying denominator\<close>







lemma candidates_of_noise:
  assumes "threshold_of (sum_list (map snd counts)) = Inr threshold"
    and "threshold_of (sum_list (map snd (counts @ noise))) = Inr threshold'"
    and "\<forall>(bits, count)\<in>set noise. of_int count < threshold'"
    and "\<forall>(bits, count)\<in>set counts. (threshold \<le> of_int count) = (threshold' \<le> of_int count)"
  shows "candidates_of (counts @ noise) N = candidates_of counts N"
proof -
  have "[(bits, count) \<leftarrow> noise. threshold' \<le> of_int count] = []"
    using assms(3) by (auto simp: filter_empty_conv)
  moreover have "[(bits, count) \<leftarrow> counts. threshold' \<le> of_int count]
                   = [(bits, count) \<leftarrow> counts. threshold \<le> of_int count]"
    using assms(4) by (intro filter_cong) auto
  ultimately have "[(bits, count) \<leftarrow> counts @ noise. threshold' \<le> of_int count]
                   = [(bits, count) \<leftarrow> counts. threshold \<le> of_int count]"
    by simp
  then show ?thesis
    using assms(1,2) by (simp only: candidates_of_def Let_def sum.case)
qed

text \<open>
  Claim C6, amended. Appending entries whose counts are below the threshold of the
  extended histogram leaves the result of \<open>optimized_period_finding\<close> unchanged,
  provided that the original entries at or above the threshold are the same before
  and after: the threshold is 2% of the total, and the appended counts are part of
  the total.
\<close>

theorem noise_entries_amended:
  assumes "threshold_of (sum_list (map snd counts)) = Inr threshold"
    and "threshold_of (sum_list (map snd (counts @ noise))) = Inr threshold'"
    and "\<forall>(bits, count)\<in>set noise. of_int count < threshold'"
    and "\<forall>(bits, count)\<in>set counts. (threshold \<le> of_int count) = (threshold' \<le> of_int count)"
  shows "optimized_period_finding (counts @ noise) N = optimized_period_finding counts N"
  using candidates_of_noise [OF assms] by (simp add: optimized_period_finding_def)

lemma threshold_4096: "threshold_of 4096 = Inr (5764607523034235 / 70368744177664)"
  by code_simp

lemma threshold_4177: "threshold_of 4177 = Inr (5878604888602051 / 70368744177664)"
  by code_simp

lemma period_clean:
  "optimized_period_finding [([False, True], 82), ([False, False], 4014)] 15 = Inr (Some 4)"
  by code_simp

lemma period_noisy:
  "optimized_period_finding
     ([([False, True], 82), ([False, False], 4014)] @ [([True, False], 81)]) 15 = Inr None"
  by code_simp

text \<open>
  Claim C6 as stated fails. With 4096 shots the threshold is 81.92 and the outcome
  \<open>01\<close> with count 82 gives the period 4; appending the outcome \<open>10\<close> with count
  81, below the threshold, raises the threshold to 83.54, the outcome \<open>01\<close> is
  dropped and the result becomes \<open>None\<close>.
\<close>

theorem noise_entries_counterexample:
  "optimized_period_finding [([False, True], 82), ([False, False], 4014)] 15 = Inr (Some 4)
   \<and> optimized_period_finding
        ([([False, True], 82), ([False, False], 4014)] @ [([True, False], 81)]) 15 = Inr None
   \<and> threshold_of 4096 = Inr (5764607523034235 / 70368744177664)
   \<and> threshold_of 4177 = Inr (5878604888602051 / 70368744177664)
   \<and> (81 :: rat) < 5764607523034235 / 70368744177664
   \<and> (81 :: rat) < 5878604888602051 / 70368744177664"
  using period_clean period_noisy threshold_4096 threshold_4177 by simp

lemma period_kept:
  "optimized_period_finding [([False, True], 100), ([False, False], 3996)] 15 = Inr (Some 4)"
  by code_simp

theorem noise_entries_amended_witness:
  "threshold_of (sum_list (map snd [([False, True], 100 :: int), ([False, False], 3996)]))
     = Inr (5764607523034235 / 70368744177664)
   \<and> threshold_of (sum_list (map snd ([([False, True], 100 :: int), ([False, False], 3996)]
                                       @ [([True, False], 81)])))
       = Inr (5878604888602051 / 70368744177664)
   \<and> (of_int 81 :: rat) < 5878604888602051 / 70368744177664
   \<and> optimized_period_finding
        ([([False, True], 100), ([False, False], 3996)] @ [([True, False], 81)]) 15
        = Inr (Some 4)
   \<and> optimized_period_finding [([False, True], 100), ([False, False], 3996)] 15
        = Inr (Some 4)"
proof -
  have t: "threshold_of (sum_list (map snd [([False, True], 100 :: int), ([False, False], 3996)]))
             = Inr (5764607523034235 / 70368744177664)"
    using threshold_4096 by simp
  have t': "threshold_of (sum_list (map snd ([([False, True], 100 :: int), ([False, False], 3996)]
                                       @ [([True, False], 81)])))
       = Inr (5878604888602051 / 70368744177664)"
    using threshold_4177 by simp
  have n: "\<forall>(bits, count)\<in>set [([True, False], 81 :: int)].
             (of_int count :: rat) < 5878604888602051 / 70368744177664"
    by simp
  have s: "\<forall>(bits, count)\<in>set [([False, True], 100 :: int), ([False, False], 3996)].
             ((5764607523034235 / 70368744177664 :: rat) \<le> of_int count)
               = ((5878604888602051 / 70368744177664 :: rat) \<le> of_int count)"
    by simp
  show ?thesis
    using noise_entries_amended [OF t t' n s, of 15] t t' period_kept by simp
qed


section \<open>The orchestrator: returned pairs\<close>



lemma classical_check_first:
  "\<exists>a\<in>set bases. 1 < gcd a N \<and> gcd a N < N \<Longrightarrow>
   \<exists>a\<in>set bases. 1 < gcd a N \<and> gcd a N < N
      \<and> classical_check bases N = Some (gcd a N, N div gcd a N)"
  by (induction bases) (auto simp: Let_def)

lemma classical_check_none:
  "\<forall>a\<in>set bases. \<not> (1 < gcd a N \<and> gcd a N < N) \<Longrightarrow> classical_check bases N = None"
  by (induction bases) (auto simp: Let_def)





section \<open>The execution gateway: bounded retry\<close>

lemma upt_3: "[0..<3] = [0, 1, 2]"
  by (simp add: upt_rec)

lemma retry_loop_3:
  "retry_loop run [0, 1, 2] =
     (case run 0 of Inr r \<Rightarrow> \<lparr>histogram = r, submissions = 1, sleeps = []\<rparr>
      | Inl e0 \<Rightarrow> (case run 1 of Inr r \<Rightarrow> \<lparr>histogram = r, submissions = 2, sleeps = [1]\<rparr>
      | Inl e1 \<Rightarrow> (case run 2 of Inr r \<Rightarrow> \<lparr>histogram = r, submissions = 3, sleeps = [1, 2]\<rparr>
      | Inl e2 \<Rightarrow> \<lparr>histogram = [], submissions = 3, sleeps = [1, 2, 4]\<rparr>)))"
  by (simp add: Let_def split: sum.splits)


lemma upt_2: "[0..<2] = [0, 1]"
  by (simp add: upt_rec)

lemma retry_cases:
  fixes run :: "nat \<Rightarrow> exn + counts"
  obtains r where "run 0 = Inr r"
  | e0 r where "run 0 = Inl e0" "run 1 = Inr r"
  | e0 e1 r where "run 0 = Inl e0" "run 1 = Inl e1" "run 2 = Inr r"
  | e0 e1 e2 where "run 0 = Inl e0" "run 1 = Inl e1" "run 2 = Inl e2"
  by (cases "run 0"; cases "run 1"; cases "run 2") auto

lemma retry_submissions: "submissions (retry_loop run [0, 1, 2]) \<le> 3"
  by (cases run rule: retry_cases) (simp_all add: retry_loop_3)

lemma retry_sleeps:
  "sleeps (retry_loop run [0, 1, 2])
     = map (\<lambda>attempt. 2 ^ attempt)
         [attempt \<leftarrow> [0..<submissions (retry_loop run [0, 1, 2])]. isl (run attempt)]"
  by (cases run rule: retry_cases) (simp_all add: retry_loop_3 upt_2 upt_3 numeral_2_eq_2)

lemma retry_histogram:
  "histogram (retry_loop run [0, 1, 2]) = []
     \<or> (\<exists>attempt<3. run attempt = Inr (histogram (retry_loop run [0, 1, 2])))"
proof (cases run rule: retry_cases)
  case (1 r)
  then have "run 0 = Inr (histogram (retry_loop run [0, 1, 2]))" by (simp add: retry_loop_3)
  then show ?thesis by (intro disjI2 exI [of _ 0]) simp
next
  case (2 e0 r)
  then have "run 1 = Inr (histogram (retry_loop run [0, 1, 2]))" by (simp add: retry_loop_3)
  then show ?thesis by (intro disjI2 exI [of _ 1]) simp
next
  case (3 e0 e1 r)
  then have "run 2 = Inr (histogram (retry_loop run [0, 1, 2]))" by (simp add: retry_loop_3)
  then show ?thesis by (intro disjI2 exI [of _ 2]) simp
next
  case (4 e0 e1 e2)
  then show ?thesis by (simp add: retry_loop_3)
qed

lemma retry_exhausted:
  assumes "\<forall>attempt<3. isl (run attempt)"
  shows "retry_loop run [0, 1, 2] = \<lparr>histogram = [], submissions = 3, sleeps = [1, 2, 4]\<rparr>"
proof -
  have "isl (run 0)" "isl (run 1)" "isl (run 2)" using assms by simp_all
  then show ?thesis by (auto simp: retry_loop_3 isl_def)
qed

section \<open>The execution gateway: the retry policy\<close>

text \<open>
  Claim C7. For each circuit of a batch independently, the gateway submits at most 3
  times; after each failed submission number \<open>attempt\<close> it sleeps \<open>2 ^ attempt\<close>; the
  value it returns is a histogram (the empty one or a reply of the service), never an
  exception; and when every submission fails it has submitted 3 times, slept
  \<open>1, 2, 4\<close> (7 in total) and returns the empty histogram.
\<close>

theorem execute_with_retry_three_attempts:
  "submissions (execute_with_retry backend c 3) \<le> 3
   \<and> sleeps (execute_with_retry backend c 3)
       = map (\<lambda>attempt. 2 ^ attempt)
           [attempt \<leftarrow> [0..<submissions (execute_with_retry backend c 3)]. isl (backend c attempt)]
   \<and> (histogram (execute_with_retry backend c 3) = []
        \<or> (\<exists>attempt<3. backend c attempt = Inr (histogram (execute_with_retry backend c 3))))
   \<and> ((\<forall>attempt<3. isl (backend c attempt)) \<longrightarrow>
         submissions (execute_with_retry backend c 3) = 3
         \<and> sleeps (execute_with_retry backend c 3) = [1, 2, 4]
         \<and> sum_list (sleeps (execute_with_retry backend c 3)) = 7
         \<and> histogram (execute_with_retry backend c 3) = [])
   \<and> length (execute_circuits batch circuits) = length circuits
   \<and> (\<forall>j<length circuits.
         execute_circuits batch circuits ! j = execute_with_retry (batch j) (circuits ! j) 3)"
proof -
  have unfold: "execute_with_retry backend c 3 = retry_loop (backend c) [0, 1, 2]"
    by (simp only: execute_with_retry_def upt_3)
  have a: "submissions (execute_with_retry backend c 3) \<le> 3"
    unfolding unfold by (rule retry_submissions)
  have b: "sleeps (execute_with_retry backend c 3)
       = map (\<lambda>attempt. 2 ^ attempt)
           [attempt \<leftarrow> [0..<submissions (execute_with_retry backend c 3)]. isl (backend c attempt)]"
    unfolding unfold by (rule retry_sleeps)
  have c: "histogram (execute_with_retry backend c 3) = []
        \<or> (\<exists>attempt<3. backend c attempt = Inr (histogram (execute_with_retry backend c 3)))"
    unfolding unfold by (rule retry_histogram)
  have d: "(\<forall>attempt<3. isl (backend c attempt)) \<longrightarrow>
         submissions (execute_with_retry backend c 3) = 3
         \<and> sleeps (execute_with_retry backend c 3) = [1, 2, 4]
         \<and> sum_list (sleeps (execute_with_retry backend c 3)) = 7
         \<and> histogram (execute_with_retry backend c 3) = []"
  proof
    assume "\<forall>attempt<3. isl (backend c attempt)"
    then have "retry_loop (backend c) [0, 1, 2]
                 = \<lparr>histogram = [], submissions = 3, sleeps = [1, 2, 4]\<rparr>"
      by (rule retry_exhausted)
    then show "submissions (execute_with_retry backend c 3) = 3
         \<and> sleeps (execute_with_retry backend c 3) = [1, 2, 4]
         \<and> sum_list (sleeps (execute_with_retry backend c 3)) = 7
         \<and> histogram (execute_with_retry backend c 3) = []"
      unfolding unfold by simp
  qed
  have e: "length (execute_circuits batch circuits) = length circuits"
    by (simp add: execute_circuits_def)
  have f: "\<forall>j<length circuits.
         execute_circuits batch circuits ! j = execute_with_retry (batch j) (circuits ! j) 3"
    by (simp add: execute_circuits_def nth_enumerate_eq)
  from a b c d e f show ?thesis by blast
qed

theorem execute_with_retry_three_attempts_witness:
  "isl (always_failing empty_circuit 0) \<and> isl (always_failing empty_circuit 1)
   \<and> isl (always_failing empty_circuit 2)
   \<and> submissions (execute_with_retry always_failing empty_circuit 3) = 3
   \<and> sleeps (execute_with_retry always_failing empty_circuit 3) = [1, 2, 4]
   \<and> sum_list (sleeps (execute_with_retry always_failing empty_circuit 3)) = 7
   \<and> histogram (execute_with_retry always_failing empty_circuit 3) = []"
proof -
  have h: "\<forall>attempt<3. isl (always_failing empty_circuit attempt)"
    by (simp add: always_failing_def)
  have "submissions (execute_with_retry always_failing empty_circuit 3) = 3
   \<and> sleeps (execute_with_retry always_failing empty_circuit 3) = [1, 2, 4]
   \<and> sum_list (sleeps (execute_with_retry always_failing empty_circuit 3)) = 7
   \<and> histogram (execute_with_retry always_failing empty_circuit 3) = []"
    using h execute_with_retry_three_attempts
              [of always_failing empty_circuit "\<lambda>j. always_failing" "[]"]
    by blast
  then show ?thesis by (simp add: always_failing_def)
qed

section \<open>The orchestrator: the classical short-circuit\<close>

lemma trial_round_classical:
  assumes "sample_bases (entropy w t) N = Inr bases"
    and "classical_check bases N = Some found"
  shows "trial_round w g N t = \<lparr>outcome = Inr (Some found), built = [], jobs = []\<rparr>"
  using assms by (simp add: trial_round_def)

lemma shor_loop_return:
  "outcome (trial_round w g N t) = Inr (Some found) \<Longrightarrow> shor_loop w g N t = Some found"
  by (subst shor_loop.simps) simp

text \<open>
  Claim C8. In every round the classical gcd check comes before any quantum dispatch:
  when some sampled base \<open>a\<close> has \<open>1 < gcd a N < N\<close>, the round returns the pair
  \<open>(gcd a N, N div gcd a N)\<close> of such a base, and so does the orchestrator, with no
  circuit built and no job handed to the execution service in that round.
\<close>

theorem classical_check_before_dispatch:
  assumes "sample_bases (entropy w t) N = Inr bases"
    and "\<exists>a\<in>set bases. 1 < gcd a N \<and> gcd a N < N"
  shows "\<exists>a\<in>set bases. 1 < gcd a N \<and> gcd a N < N
           \<and> outcome (trial_round w g N t) = Inr (Some (gcd a N, N div gcd a N))
           \<and> built (trial_round w g N t) = []
           \<and> jobs (trial_round w g N t) = []
           \<and> shor_loop w g N t = Some (gcd a N, N div gcd a N)"
proof -
  obtain a where a: "a \<in> set bases" "1 < gcd a N \<and> gcd a N < N"
    and found: "classical_check bases N = Some (gcd a N, N div gcd a N)"
    using classical_check_first [OF assms(2)] by blast
  have r: "trial_round w g N t
             = \<lparr>outcome = Inr (Some (gcd a N, N div gcd a N)), built = [], jobs = []\<rparr>"
    using assms(1) found by (rule trial_round_classical)
  then have "shor_loop w g N t = Some (gcd a N, N div gcd a N)"
    by (intro shor_loop_return) simp
  with a r show ?thesis by (intro bexI [of _ a]) simp_all
qed

lemma sample_w15: "sample_bases (entropy w15 0) 15 = Inr [5, 2, 2, 2, 2, 2, 2, 2]"
  by code_simp

theorem classical_check_before_dispatch_witness:
  "sample_bases (entropy w15 0) 15 = Inr [5, 2, 2, 2, 2, 2, 2, 2]
   \<and> (5::int) \<in> set [5, 2, 2, 2, 2, 2, 2, 2] \<and> 1 < gcd (5::int) 15 \<and> gcd (5::int) 15 < 15
   \<and> outcome (trial_round w15 (LargeNumberShorCircuit 15) 15 0) = Inr (Some (5, 3))
   \<and> built (trial_round w15 (LargeNumberShorCircuit 15) 15 0) = []
   \<and> jobs (trial_round w15 (LargeNumberShorCircuit 15) 15 0) = []
   \<and> run_shors_algorithm w15 15 = Some (5, 3)"
proof -
  have h: "\<exists>a\<in>set [5, 2, 2, 2, 2, 2, 2, 2 :: int]. 1 < gcd a 15 \<and> gcd a 15 < 15"
    by simp
  obtain a where a: "a \<in> set [5, 2, 2, 2, 2, 2, 2, 2 :: int]" "1 < gcd a 15"
    and r: "outcome (trial_round w15 (LargeNumberShorCircuit 15) 15 0) = Inr (Some (gcd a 15, 15 div gcd a 15))"
       "built (trial_round w15 (LargeNumberShorCircuit 15) 15 0) = []"
       "jobs (trial_round w15 (LargeNumberShorCircuit 15) 15 0) = []"
       "shor_loop w15 (LargeNumberShorCircuit 15) 15 0 = Some (gcd a 15, 15 div gcd a 15)"
    using classical_check_before_dispatch [OF sample_w15 h, of "LargeNumberShorCircuit 15"] by blast
  from a have "a = 5" by auto
  then have "gcd a 15 = 5" "15 div gcd a 15 = 3" by simp_all
  with r sample_w15 show ?thesis by (simp add: run_shors_algorithm_def)
qed

section \<open>The orchestrator: what a run returns\<close>






section \<open>The orchestrator: unproductive rounds\<close>

lemma retry_loop_empty:
  "\<forall>attempt h. run attempt = Inr h \<longrightarrow> h = [] \<Longrightarrow> histogram (retry_loop run attempts) = []"
proof (induction attempts)
  case Nil
  then show ?case by simp
next
  case (Cons attempt attempts)
  show ?case
  proof (cases "run attempt")
    case (Inl e)
    then show ?thesis using Cons by (simp add: Let_def)
  next
    case (Inr h)
    then have "h = []" using Cons.prems by blast
    then show ?thesis using Inr by simp
  qed
qed

lemma execute_circuits_empty:
  assumes "\<forall>j c attempt h. backend j c attempt = Inr h \<longrightarrow> h = []"
  shows "\<forall>r\<in>set (execute_circuits backend circuits). histogram r = []"
proof -
  have "histogram (execute_with_retry (backend j) c 3) = []" for j c
    unfolding execute_with_retry_def
    by (rule retry_loop_empty) (use assms in blast)
  then show ?thesis
    by (auto simp: execute_circuits_def)
qed

lemma factor_test_all_empty:
  "\<forall>z\<in>set zs. snd z = [] \<Longrightarrow> factor_test zs N = Inr None"
  by (induction zs N rule: factor_test.induct) auto

lemma trial_round_unproductive:
  assumes svc: "\<forall>t j c attempt h. service w t j c attempt = Inr h \<longrightarrow> h = []"
    and gcds: "\<forall>t bases. sample_bases (entropy w t) N = Inr bases \<longrightarrow>
                 (\<forall>a\<in>set bases. \<not> (1 < gcd a N \<and> gcd a N < N))"
  shows "outcome (trial_round w g N t) \<noteq> Inr (Some found)"
proof (cases "sample_bases (entropy w t) N")
  case (Inl e)
  then show ?thesis by (simp add: trial_round_def)
next
  case (Inr bases)
  then have none: "classical_check bases N = None"
    using gcds by (intro classical_check_none) blast
  show ?thesis
  proof (cases "comprehension (create_quantum_circuits g) bases")
    case (Inl e)
    then show ?thesis using Inr none by (simp add: trial_round_def)
  next
    case circuits: (Inr circuits)
    have "\<forall>r\<in>set (execute_circuits (service w t) circuits). histogram r = []"
      by (rule execute_circuits_empty) (use svc in blast)
    then have "\<forall>z\<in>set (zip bases (map histogram (execute_circuits (service w t) circuits))).
                 snd z = []"
      by (auto dest!: set_zip_rightD)
    then have "factor_test (zip bases (map histogram (execute_circuits (service w t) circuits))) N
                 = Inr None"
      by (rule factor_test_all_empty)
    then show ?thesis using Inr none circuits by (simp add: trial_round_def Let_def)
  qed
qed

lemma shor_loop_diverges:
  assumes svc: "\<forall>t j c attempt h. service w t j c attempt = Inr h \<longrightarrow> h = []"
    and gcds: "\<forall>t bases. sample_bases (entropy w t) N = Inr bases \<longrightarrow>
                 (\<forall>a\<in>set bases. \<not> (1 < gcd a N \<and> gcd a N < N))"
  shows "shor_loop w g N t = None"
proof (rule ccontr)
  assume "shor_loop w g N t \<noteq> None"
  then obtain y where y: "shor_loop w g N t = Some y" by auto
  let ?H = "\<lambda>w N. (\<forall>t j c attempt h. service w t j c attempt = Inr h \<longrightarrow> h = [])
      \<and> (\<forall>t bases. sample_bases (entropy w t) N = Inr bases \<longrightarrow>
                 (\<forall>a\<in>set bases. \<not> (1 < gcd a N \<and> gcd a N < N)))"
  have "\<not> ?H w N"
  proof (rule shor_loop.raw_induct [where P = "\<lambda>w g N t y. \<not> ?H w N", OF _ y])
    fix loop :: "world \<Rightarrow> generator \<Rightarrow> int \<Rightarrow> nat \<Rightarrow> (int \<times> int) option"
    fix w g N t y
    assume IH: "\<And>w g N t y. loop w g N t = Some y \<Longrightarrow> \<not> ?H w N"
    assume step: "(case outcome (trial_round w g N t) of
                   Inl e \<Rightarrow> loop w g N (Suc t)
                 | Inr None \<Rightarrow> loop w g N (Suc t)
                 | Inr (Some found) \<Rightarrow> Some found) = Some y"
    show "\<not> ?H w N"
    proof
      assume H: "?H w N"
      then have no: "\<And>found. outcome (trial_round w g N t) \<noteq> Inr (Some found)"
        by (intro trial_round_unproductive) blast+
      have "loop w g N (Suc t) = Some y"
      proof (cases "outcome (trial_round w g N t)")
        case (Inl e)
        then show ?thesis using step by simp
      next
        case (Inr r)
        then show ?thesis using step no by (cases r) auto
      qed
      from IH [OF this] H show False by blast
    qed
  qed
  then show False using svc gcds by blast
qed

text \<open>
  Claim C9. The orchestrator never raises to its caller: an exception in a round is
  caught and leads to the next round, so a run either returns a pair or goes on for
  ever. When the service only ever yields empty histograms (or failures) and no base
  drawn in any round shares a nontrivial factor with \<open>N\<close>, no round returns and the
  run never returns (the value \<open>None\<close> of the model).
\<close>

theorem run_shors_algorithm_retries_forever:
  assumes "\<forall>t j c attempt h. service w t j c attempt = Inr h \<longrightarrow> h = []"
    and "\<forall>t bases. sample_bases (entropy w t) N = Inr bases \<longrightarrow>
                 (\<forall>a\<in>set bases. \<not> (1 < gcd a N \<and> gcd a N < N))"
  shows "run_shors_algorithm w N = None
         \<and> (\<forall>t. \<forall>found. outcome (trial_round w (LargeNumberShorCircuit N) N t) \<noteq> Inr (Some found))"
  unfolding run_shors_algorithm_def
  using shor_loop_diverges [OF assms] trial_round_unproductive [OF assms] by blast

lemma sample_w_dead: "sample_bases (entropy w_dead t) 15 = Inr [2, 2, 2, 2, 2, 2, 2, 2]"
  unfolding w_dead_def by (simp add: sample_bases_def MAX_PARALLEL_JOBS_def randint_def upt_rec)

theorem run_shors_algorithm_retries_forever_witness:
  "run_shors_algorithm w_dead 15 = None
   \<and> service w_dead 0 0 empty_circuit 0 = Inr []
   \<and> sample_bases (entropy w_dead 0) 15 = Inr [2, 2, 2, 2, 2, 2, 2, 2]
   \<and> gcd (2::int) 15 = 1"
proof -
  have svc: "\<forall>t j c attempt h. service w_dead t j c attempt = Inr h \<longrightarrow> h = []"
    by (simp add: w_dead_def)
  have gcds: "\<forall>t bases. sample_bases (entropy w_dead t) 15 = Inr bases \<longrightarrow>
                 (\<forall>a\<in>set bases. \<not> (1 < gcd a 15 \<and> gcd a 15 < 15))"
    by (auto simp: sample_w_dead)
  have "run_shors_algorithm w_dead 15 = None"
    using run_shors_algorithm_retries_forever [OF svc gcds] by blast
  moreover have "service w_dead 0 0 empty_circuit 0 = Inr []"
    by (simp add: w_dead_def)
  ultimately show ?thesis using sample_w_dead [of 0] by simp
qed

section \<open>The circuit builder\<close>














end
